theory Spec2Isabelle
  imports Main
begin

section \<open>Values exchanged with the Reddit API\<close>

text \<open>
  \<^verbatim>\<open>res.json()\<close> yields Python values built from JSON: \<^verbatim>\<open>None\<close>, booleans, numbers,
  strings, lists and dictionaries. A dictionary is an association list read with
  \<open>map_of\<close>. Numbers are integers: the crawler never computes with a number, it only
  copies it or tests its truth value.
\<close>

datatype json =
    JNull
  | JBool bool
  | JNum int
  | JStr string
  | JArr "json list"
  | JObj "(string \<times> json) list"

text \<open>
  Every exception the code can meet is a subclass of Python's \<^verbatim>\<open>Exception\<close>;
  \<open>Exception msg\<close> is the plain \<^verbatim>\<open>Exception(msg)\<close> the code raises itself.
\<close>

datatype exc =
    KeyError
  | TypeError
  | IndexError
  | ConnectionError
  | JSONDecodeError
  | OSError
  | Exception string

definition and_then :: "exc + 'a \<Rightarrow> ('a \<Rightarrow> exc + 'b) \<Rightarrow> exc + 'b" where
  "and_then m f = (case m of Inl e \<Rightarrow> Inl e | Inr x \<Rightarrow> f x)"

text \<open>\<^verbatim>\<open>v[key]\<close> with a string key: only a dictionary accepts it.\<close>

fun getitem :: "json \<Rightarrow> string \<Rightarrow> exc + json" where
  "getitem (JObj kvs) k = (case map_of kvs k of None \<Rightarrow> Inl KeyError | Some v \<Rightarrow> Inr v)"
| "getitem _ k = Inl TypeError"

text \<open>
  \<^verbatim>\<open>v[i]\<close> with a non-negative integer: a list or a string is indexed, a JSON
  dictionary has string keys only, everything else is not subscriptable.
\<close>

fun getitem_int :: "json \<Rightarrow> nat \<Rightarrow> exc + json" where
  "getitem_int (JArr xs) i = (if i < length xs then Inr (xs ! i) else Inl IndexError)"
| "getitem_int (JStr s) i = (if i < length s then Inr (JStr [s ! i]) else Inl IndexError)"
| "getitem_int (JObj kvs) i = Inl KeyError"
| "getitem_int _ i = Inl TypeError"

text \<open>
  \<^verbatim>\<open>for x in v\<close>: a list gives its elements, a dictionary its keys, a string its
  characters; the other values are not iterable.
\<close>

fun py_iter :: "json \<Rightarrow> exc + json list" where
  "py_iter (JArr xs) = Inr xs"
| "py_iter (JObj kvs) = Inr (map (\<lambda>kv. JStr (fst kv)) kvs)"
| "py_iter (JStr s) = Inr (map (\<lambda>c. JStr [c]) s)"
| "py_iter _ = Inl TypeError"

fun substring :: "string \<Rightarrow> string \<Rightarrow> bool" where
  "substring n [] = (n = [])"
| "substring n (c # cs) = (take (length n) (c # cs) = n \<or> substring n cs)"

text \<open>
  \<^verbatim>\<open>key in v\<close> for a string key: key membership for a dictionary, element membership
  for a list, substring test for a string, TypeError otherwise.
\<close>

fun py_in :: "string \<Rightarrow> json \<Rightarrow> exc + bool" where
  "py_in k (JObj kvs) = Inr (k \<in> set (map fst kvs))"
| "py_in k (JArr xs) = Inr (JStr k \<in> set xs)"
| "py_in k (JStr s) = Inr (substring k s)"
| "py_in k _ = Inl TypeError"

text \<open>The truth value of \<^verbatim>\<open>if v:\<close>.\<close>

fun truthy :: "json \<Rightarrow> bool" where
  "truthy JNull = False"
| "truthy (JBool b) = b"
| "truthy (JNum n) = (n \<noteq> 0)"
| "truthy (JStr s) = (s \<noteq> [])"
| "truthy (JArr xs) = (xs \<noteq> [])"
| "truthy (JObj kvs) = (kvs \<noteq> [])"

section \<open>Requests, the upstream and the program state\<close>

text \<open>
  The address of a request. \<open>ListingUri sub sort\<close> is
  \<^verbatim>\<open>f'https://oauth.reddit.com/r/{sub}/{sort}'\<close> and \<open>CommentsUri i\<close> is
  \<^verbatim>\<open>f'https://oauth.reddit.com/comments/{i}'\<close>, kept unformatted.
\<close>

datatype uri =
    TokenUri
  | MeUri
  | ListingUri string string
  | CommentsUri json

datatype http_method = GET | POST

record request =
  meth :: http_method
  target :: uri
  hdrs :: "(string \<times> string) list"
  params :: "(string \<times> json) list"
  auth :: "(json \<times> json) option"
  form :: "(string \<times> json) list"

text \<open>
  What a call of \<^verbatim>\<open>requests.get\<close> or \<^verbatim>\<open>requests.post\<close> gives: the call itself raises
  (\<open>NetFail\<close>), or it returns a response with a status code and a body; the body is
  \<open>None\<close> when \<^verbatim>\<open>res.json()\<close> cannot decode it.
\<close>

datatype reply = NetFail | Resp int "json option"

text \<open>A line written by \<^verbatim>\<open>print\<close>.\<close>

datatype line =
    Text string
  | Printed_json json
  | Printed_exc exc
  | Batch_line nat nat

text \<open>
  The state threaded through every method: the two attributes of the loader
  (\<open>config\<close>, \<open>headers\<close>), the files that \<^verbatim>\<open>open\<close> and \<^verbatim>\<open>json.load\<close> can read, the
  upstream (its reply to the latest request of a log of all requests so far), the log of
  requests issued, and the lines printed.
\<close>

record state =
  config :: json
  headers :: "(string \<times> string) list"
  files :: "string \<Rightarrow> exc + json"
  upstream :: "request list \<Rightarrow> reply"
  sent :: "request list"
  stdout :: "line list"

definition print :: "line \<Rightarrow> state \<Rightarrow> state" where
  "print x s = s\<lparr>stdout := stdout s @ [x]\<rparr>"

definition http :: "request \<Rightarrow> state \<Rightarrow> reply \<times> state" where
  "http r s = (let log = sent s @ [r] in (upstream s log, s\<lparr>sent := log\<rparr>))"

text \<open>\<^verbatim>\<open>requests.get(uri, headers=self.headers, params=params).json()\<close>\<close>

definition get_json :: "uri \<Rightarrow> (string \<times> json) list \<Rightarrow> state \<Rightarrow> (exc + json) \<times> state" where
  "get_json u ps s =
     (case http \<lparr>meth = GET, target = u, hdrs = headers s, params = ps,
                 auth = None, form = []\<rparr> s of
        (NetFail, s') \<Rightarrow> (Inl ConnectionError, s')
      | (Resp code None, s') \<Rightarrow> (Inl JSONDecodeError, s')
      | (Resp code (Some j), s') \<Rightarrow> (Inr j, s'))"

text \<open>\<^verbatim>\<open>d[k] = v\<close> on a dictionary of headers.\<close>

fun setitem :: "(string \<times> string) list \<Rightarrow> string \<Rightarrow> string \<Rightarrow> (string \<times> string) list" where
  "setitem [] k v = [(k, v)]"
| "setitem ((k', v') # kvs) k v = (if k' = k then (k, v) # kvs else (k', v') # setitem kvs k v)"

section \<open>Construction of the loader\<close>

definition get_token :: "state \<Rightarrow> (exc + json) \<times> state" where
  "get_token s =
     (case and_then (getitem (config s) ''client_id'') (\<lambda>cid.
           and_then (getitem (config s) ''secret_token'') (\<lambda>sec.
           and_then (getitem (config s) ''username'') (\<lambda>usr.
           and_then (getitem (config s) ''password'') (\<lambda>pwd.
             Inr \<lparr>meth = POST, target = TokenUri, hdrs = headers s, params = [],
                  auth = Some (cid, sec),
                  form = [(''grant_type'', JStr ''password''),
                          (''username'', usr), (''password'', pwd)]\<rparr>)))) of
        Inl e \<Rightarrow> (Inl e, s)
      | Inr req \<Rightarrow>
          (case http req s of
             (NetFail, s') \<Rightarrow> (Inl ConnectionError, s')
           | (Resp code None, s') \<Rightarrow> (Inl JSONDecodeError, s')
           | (Resp code (Some j), s') \<Rightarrow>
               (case getitem j ''access_token'' of
                  Inr tok \<Rightarrow> (Inr tok, s')
                | Inl KeyError \<Rightarrow>
                    (Inl (Exception ''Invalid credentials''), print (Printed_json j) s')
                | Inl e \<Rightarrow> (Inl e, s'))))"

text \<open>
  \<^verbatim>\<open>__init__(self, path)\<close>. \<^verbatim>\<open>'bearer ' + token\<close> needs a string. The check of
  \<^verbatim>\<open>/api/v1/me\<close> reads the status code only.
\<close>

definition init :: "string \<Rightarrow> state \<Rightarrow> (exc + unit) \<times> state" where
  "init path s =
     (case files s path of
        Inl e \<Rightarrow> (Inl e, s)
      | Inr cfg \<Rightarrow>
          (case get_token (s\<lparr>config := cfg, headers := [(''User-Agent'', ''MyBot/0.0.1'')]\<rparr>) of
             (Inl e, s1) \<Rightarrow> (Inl e, s1)
           | (Inr tok, s1) \<Rightarrow>
               (case tok of
                  JStr t \<Rightarrow>
                    (let s2 = s1\<lparr>headers := setitem (headers s1) ''Authorization'' (''bearer '' @ t)\<rparr>
                     in case http \<lparr>meth = GET, target = MeUri, hdrs = headers s2, params = [],
                                  auth = None, form = []\<rparr> s2 of
                          (NetFail, s3) \<Rightarrow> (Inl ConnectionError, s3)
                        | (Resp code body, s3) \<Rightarrow>
                            (Inr (), if code = 200 then print (Text ''Success authenticated'') s3
                                     else s3))
                | _ \<Rightarrow> (Inl TypeError, s1))))"

section \<open>One batch\<close>

text \<open>
  A row \<^verbatim>\<open>[a, b, c]\<close> of the result; \<^verbatim>\<open>row[0]\<close> is its first component. Both batch
  functions build rows of exactly three entries. Their parameter \<^verbatim>\<open>before\<close> is written
  \<open>before_name\<close>.
\<close>

type_synonym row = "json \<times> json \<times> json"

definition before_param :: "json \<Rightarrow> (string \<times> json) list" where
  "before_param before_name = (if truthy before_name then [(''before'', before_name)] else [])"

definition field :: "json \<Rightarrow> string \<Rightarrow> exc + json" where
  "field item k = and_then (getitem item ''data'') (\<lambda>d. getitem d k)"

text \<open>\<^verbatim>\<open>raw_data['data']['children']\<close>, as the sequence a \<^verbatim>\<open>for\<close> loop runs over.\<close>

definition children :: "json \<Rightarrow> exc + json list" where
  "children raw = and_then (field raw ''children'') py_iter"

fun post_rows :: "json list \<Rightarrow> row list \<Rightarrow> exc + row list" where
  "post_rows [] data = Inr data"
| "post_rows (post # posts) data =
     and_then (field post ''name'') (\<lambda>name.
     and_then (field post ''title'') (\<lambda>title.
     and_then (field post ''selftext'') (\<lambda>text.
       post_rows posts (data @ [(name, title, text)]))))"

definition get_single_batch_post_from_reddit ::
  "string \<Rightarrow> string \<Rightarrow> int \<Rightarrow> json \<Rightarrow> state \<Rightarrow> (exc + row list) \<times> state" where
  "get_single_batch_post_from_reddit subreddit sort_by limit before_name s =
     (case get_json (ListingUri subreddit sort_by)
             ([(''limit'', JNum limit), (''raw_json'', JNum 1)] @ before_param before_name) s of
        (Inl e, s') \<Rightarrow> (Inl e, s')
      | (Inr raw_data, s') \<Rightarrow>
          (and_then (children raw_data) (\<lambda>posts. post_rows posts []), s'))"

text \<open>The inner loop over the comments of one post.\<close>

fun comment_rows :: "json \<Rightarrow> json \<Rightarrow> json list \<Rightarrow> row list \<Rightarrow> exc + row list" where
  "comment_rows post_name post_title [] data = Inr data"
| "comment_rows post_name post_title (comment # comments) data =
     and_then (and_then (getitem comment ''data'') (py_in ''body'')) (\<lambda>has_body.
       if has_body
       then and_then (field comment ''body'') (\<lambda>body.
              comment_rows post_name post_title comments (data @ [(post_name, post_title, body)]))
       else comment_rows post_name post_title comments data)"

definition comment_params :: "string \<Rightarrow> (string \<times> json) list" where
  "comment_params sort_by = [(''limit'', JNum 5), (''raw_json'', JNum 1), (''sort'', JStr sort_by)]"

text \<open>The outer loop over the posts of the page: one request per post.\<close>

fun post_comments ::
  "string \<Rightarrow> json list \<Rightarrow> row list \<Rightarrow> state \<Rightarrow> (exc + row list) \<times> state" where
  "post_comments sort_by [] data s = (Inr data, s)"
| "post_comments sort_by (post # posts) data s =
     (case and_then (field post ''name'') (\<lambda>post_name.
           and_then (field post ''title'') (\<lambda>post_title.
           and_then (field post ''id'') (\<lambda>post_id. Inr (post_name, post_title, post_id)))) of
        Inl e \<Rightarrow> (Inl e, s)
      | Inr (post_name, post_title, post_id) \<Rightarrow>
          (case get_json (CommentsUri post_id) (comment_params sort_by) s of
             (Inl e, s') \<Rightarrow> (Inl e, s')
           | (Inr raw_comments, s') \<Rightarrow>
               (case and_then (and_then (getitem_int raw_comments 1) children)
                       (\<lambda>comments. comment_rows post_name post_title comments data) of
                  Inl e \<Rightarrow> (Inl e, s')
                | Inr data' \<Rightarrow> post_comments sort_by posts data' s')))"

definition get_single_batch_post_comment_from_reddit ::
  "string \<Rightarrow> string \<Rightarrow> int \<Rightarrow> json \<Rightarrow> state \<Rightarrow> (exc + row list) \<times> state" where
  "get_single_batch_post_comment_from_reddit subreddit sort_by limit before_name s =
     (case get_json (ListingUri subreddit ''top'')
             ([(''limit'', JNum limit), (''raw_json'', JNum 1), (''t'', JStr ''all'')]
              @ before_param before_name) s of
        (Inl e, s') \<Rightarrow> (Inl e, s')
      | (Inr raw_data, s') \<Rightarrow>
          (case children raw_data of
             Inl e \<Rightarrow> (Inl e, s')
           | Inr posts \<Rightarrow> post_comments sort_by posts [] s'))"

section \<open>The crawl\<close>

record table =
  columns :: "string list"
  rows :: "row list"

text \<open>
  \<^verbatim>\<open>make_dataframe(type, data)\<close>, a static method. It is written in the state-passing
  style of the methods so that its independence from the state can be stated.
\<close>

definition make_dataframe :: "string \<Rightarrow> row list \<Rightarrow> state \<Rightarrow> (exc + table) \<times> state" where
  "make_dataframe type data s =
     (if type = ''post'' then (Inr \<lparr>columns = [''name'', ''title'', ''text''], rows = data\<rparr>, s)
      else if type = ''comment''
      then (Inr \<lparr>columns = [''name'', ''title'', ''comment''], rows = data\<rparr>, s)
      else (Inl (Exception ''Invalid type''), s))"

text \<open>
  The local variables of \<^verbatim>\<open>get_all_data\<close> that the loop changes; \<open>before_name\<close> is
  the variable \<^verbatim>\<open>before\<close>, the name of the post to get data before (\<open>JNull\<close> for
  \<^verbatim>\<open>None\<close>). \<open>batch\<close> is bound only when \<open>verbose\<close> holds, which is also the only
  case in which it is read.
\<close>

record locals =
  data :: "row list"
  before_name :: json
  batch :: nat
  data_size :: nat

datatype control = Break | Continue

type_synonym get_data = "string \<Rightarrow> string \<Rightarrow> int \<Rightarrow> json \<Rightarrow> state \<Rightarrow> (exc + row list) \<times> state"

text \<open>
  One pass through the body of \<^verbatim>\<open>while True\<close>. An exception of the fetch leaves
  \<open>data\<close> as it was; \<^verbatim>\<open>data[-1]\<close> raises IndexError when \<open>data\<close> is empty, after the
  (empty) batch has been added. Both are caught, printed and end the loop.
\<close>

definition iteration ::
  "get_data \<Rightarrow> string \<Rightarrow> string \<Rightarrow> bool \<Rightarrow> locals \<Rightarrow> state \<Rightarrow> control \<times> locals \<times> state" where
  "iteration get_data subreddit sort_by verbose l s =
     (case get_data subreddit sort_by 100 (before_name l) s of
        (Inl e, s1) \<Rightarrow> (Break, l, print (Printed_exc e) s1)
      | (Inr fetched, s1) \<Rightarrow>
          (let l1 = l\<lparr>data := data l @ fetched\<rparr> in
           if data l1 = [] then (Break, l1, print (Printed_exc IndexError) s1)
           else
             (let l2 = l1\<lparr>before_name := fst (last (data l1))\<rparr>;
                  l3 = (if verbose then l2\<lparr>batch := batch l2 + 1\<rparr> else l2);
                  s2 = (if verbose then print (Batch_line (batch l3) (length (data l3))) s1 else s1)
              in if length (data l3) = data_size l3 then (Break, l3, s2)
                 else (Continue, l3\<lparr>data_size := length (data l3)\<rparr>, s2))))"

text \<open>The loop. It need not end: the upstream may go on returning records.\<close>

partial_function (option) crawl ::
  "get_data \<Rightarrow> string \<Rightarrow> string \<Rightarrow> bool \<Rightarrow> locals \<Rightarrow> state \<Rightarrow> (locals \<times> state) option" where
  "crawl get_data subreddit sort_by verbose l s =
     (case iteration get_data subreddit sort_by verbose l s of
        (Break, l', s') \<Rightarrow> Some (l', s')
      | (Continue, l', s') \<Rightarrow> crawl get_data subreddit sort_by verbose l' s')"

definition start :: "bool \<Rightarrow> state \<Rightarrow> state" where
  "start verbose s = (if verbose then print (Text ''Getting data...'') s else s)"

definition locals0 :: locals where
  "locals0 = \<lparr>data = [], before_name = JNull, batch = 0, data_size = 0\<rparr>"

definition collect ::
  "get_data \<Rightarrow> string \<Rightarrow> string \<Rightarrow> string \<Rightarrow> bool \<Rightarrow> state \<Rightarrow> ((exc + table) \<times> state) option" where
  "collect get_data type subreddit sort_by verbose s =
     (case crawl get_data subreddit sort_by verbose locals0 (start verbose s) of
        None \<Rightarrow> None
      | Some (l, s') \<Rightarrow> Some (make_dataframe type (data l) s'))"

definition get_all_data ::
  "string \<Rightarrow> string \<Rightarrow> string \<Rightarrow> bool \<Rightarrow> state \<Rightarrow> ((exc + table) \<times> state) option" where
  "get_all_data type subreddit sort_by verbose s =
     (if type = ''post''
      then collect get_single_batch_post_from_reddit type subreddit sort_by verbose s
      else if type = ''comment''
      then collect get_single_batch_post_comment_from_reddit type subreddit sort_by verbose s
      else Some (Inl (Exception ''Invalid type''), s))"

text \<open>The function \<^verbatim>\<open>get_data\<close> is bound to, when the type is a valid one.\<close>

definition fetcher :: "string \<Rightarrow> get_data" where
  "fetcher type = (if type = ''post'' then get_single_batch_post_from_reddit
                   else get_single_batch_post_comment_from_reddit)"

text \<open>
  The fetches of the first \<open>n\<close> passes of the loop, in order: the cursor each was
  called with and what it returned or raised.
\<close>

fun fetches ::
  "nat \<Rightarrow> get_data \<Rightarrow> string \<Rightarrow> string \<Rightarrow> bool \<Rightarrow> locals \<Rightarrow> state \<Rightarrow> (json \<times> (exc + row list)) list" where
  "fetches 0 get_data subreddit sort_by verbose l s = []"
| "fetches (Suc n) get_data subreddit sort_by verbose l s =
     (before_name l, fst (get_data subreddit sort_by 100 (before_name l) s)) #
     (case iteration get_data subreddit sort_by verbose l s of
        (Break, l', s') \<Rightarrow> []
      | (Continue, l', s') \<Rightarrow> fetches n get_data subreddit sort_by verbose l' s')"

text \<open>The records a fetch contributes: none when it raised.\<close>

fun batch_of :: "exc + row list \<Rightarrow> row list" where
  "batch_of (Inl e) = []"
| "batch_of (Inr b) = b"

text \<open>A fetch that ends the crawl: it raised, or it returned no record.\<close>

fun final :: "exc + row list \<Rightarrow> bool" where
  "final (Inl e) = True"
| "final (Inr b) = (b = [])"

section \<open>Reading a batch of comments\<close>

text \<open>
  What the statement about comment mode speaks of: a field of an item
  (\<^verbatim>\<open>item['data'][k]\<close>, when present), whether a comment item carries a body, the comment
  items of a reply (\<^verbatim>\<open>raw_comments[1]['data']['children']\<close>), the rows one post gives,
  and the two requests of the batch.
\<close>

definition the_field :: "json \<Rightarrow> string \<Rightarrow> json" where
  "the_field item k = (case field item k of Inr v \<Rightarrow> v | Inl e \<Rightarrow> JNull)"

definition has_body :: "json \<Rightarrow> bool" where
  "has_body comment = (case field comment ''body'' of Inr b \<Rightarrow> True | Inl e \<Rightarrow> False)"

definition thread :: "reply \<Rightarrow> json list" where
  "thread r =
     (case r of
        Resp code (Some raw_comments) \<Rightarrow>
          (case and_then (getitem_int raw_comments 1) children of
             Inr comments \<Rightarrow> comments
           | Inl e \<Rightarrow> [])
      | _ \<Rightarrow> [])"

definition rows_of_post :: "json \<Rightarrow> json list \<Rightarrow> row list" where
  "rows_of_post post comments =
     map (\<lambda>comment. (the_field post ''name'', the_field post ''title'', the_field comment ''body''))
       (filter has_body comments)"

definition comment_request :: "(string \<times> string) list \<Rightarrow> string \<Rightarrow> json \<Rightarrow> request" where
  "comment_request h sort_by post =
     \<lparr>meth = GET, target = CommentsUri (the_field post ''id''), hdrs = h,
      params = comment_params sort_by, auth = None, form = []\<rparr>"

definition top_request :: "(string \<times> string) list \<Rightarrow> string \<Rightarrow> int \<Rightarrow> json \<Rightarrow> request" where
  "top_request h subreddit limit cursor =
     \<lparr>meth = GET, target = ListingUri subreddit ''top'', hdrs = h,
      params = [(''limit'', JNum limit), (''raw_json'', JNum 1), (''t'', JStr ''all'')]
               @ before_param cursor,
      auth = None, form = []\<rparr>"

section \<open>A scripted upstream\<close>

text \<open>
  An upstream that answers the \<open>k\<close>-th request with the \<open>k\<close>-th reply of a list, and fails
  once the list is used up; a loader as \<open>init\<close> leaves it; and replies of the shape the
  API gives. They serve as concrete inputs.
\<close>

definition scripted :: "reply list \<Rightarrow> request list \<Rightarrow> reply" where
  "scripted rs log =
     (if log \<noteq> [] \<and> length log \<le> length rs then rs ! (length log - 1) else NetFail)"

definition loader :: "reply list \<Rightarrow> state" where
  "loader rs =
     \<lparr>config = JObj [(''client_id'', JStr ''id''), (''secret_token'', JStr ''secret''),
                     (''username'', JStr ''user''), (''password'', JStr ''pw'')],
      headers = [(''User-Agent'', ''MyBot/0.0.1''), (''Authorization'', ''bearer tok'')],
      files = (\<lambda>p. Inl OSError),
      upstream = scripted rs, sent = [], stdout = []\<rparr>"

definition post_item :: "string \<Rightarrow> string \<Rightarrow> string \<Rightarrow> string \<Rightarrow> json" where
  "post_item name ident title text =
     JObj [(''data'', JObj [(''name'', JStr name), (''id'', JStr ident),
                            (''title'', JStr title), (''selftext'', JStr text)])]"

definition listing :: "json list \<Rightarrow> json" where
  "listing items = JObj [(''kind'', JStr ''Listing''), (''data'', JObj [(''children'', JArr items)])]"

definition page :: "json list \<Rightarrow> reply" where
  "page items = Resp 200 (Some (listing items))"

definition example_a :: json where "example_a = post_item ''t3_a'' ''a'' ''A'' ''x''"

definition example_b :: json where "example_b = post_item ''t3_b'' ''b'' ''B'' ''y''"

definition example_c :: json where "example_c = post_item ''t3_c'' ''c'' ''C'' ''z''"

text \<open>The state before the loader is constructed, with a credentials file in place.\<close>

definition fresh :: "reply list \<Rightarrow> state" where
  "fresh rs =
     \<lparr>config = JNull, headers = [],
      files = (\<lambda>p. if p = ''reddit_cred.json''
                    then Inr (JObj [(''client_id'', JStr ''id''), (''secret_token'', JStr ''secret''),
                                    (''username'', JStr ''user''), (''password'', JStr ''pw'')])
                    else Inl OSError),
      upstream = scripted rs, sent = [], stdout = []\<rparr>"

text \<open>The request \<open>get_token\<close> posts, from the four values of the credentials.\<close>

definition token_request :: "json \<Rightarrow> json \<Rightarrow> json \<Rightarrow> json \<Rightarrow> request" where
  "token_request cid sec usr pwd =
     \<lparr>meth = POST, target = TokenUri, hdrs = [(''User-Agent'', ''MyBot/0.0.1'')], params = [],
      auth = Some (cid, sec),
      form = [(''grant_type'', JStr ''password''), (''username'', usr), (''password'', pwd)]\<rparr>"

text \<open>
  Whether a token reply carries the field: \<^verbatim>\<open>res.json()['access_token']\<close> gives a value.
  A body that is not JSON carries none.
\<close>

definition has_token :: "json option \<Rightarrow> bool" where
  "has_token body =
     (case body of
        None \<Rightarrow> False
      | Some j \<Rightarrow> (case getitem j ''access_token'' of Inr tok \<Rightarrow> True | Inl e \<Rightarrow> False))"

text \<open>Replies of the comment endpoint: a comment with a body, and a placeholder without.\<close>

definition comment_item :: "string \<Rightarrow> json" where
  "comment_item body = JObj [(''kind'', JStr ''t1''), (''data'', JObj [(''body'', JStr body)])]"

definition more_item :: json where
  "more_item = JObj [(''kind'', JStr ''more''), (''data'', JObj [(''count'', JNum 3)])]"

definition comments_page :: "json list \<Rightarrow> reply" where
  "comments_page items = Resp 200 (Some (JArr [listing [], listing items]))"

definition example_replies :: "reply list" where
  "example_replies =
     [page [example_a, example_b],
      comments_page [comment_item ''so sad'', more_item, comment_item ''same''],
      comments_page []]"

declare crawl.simps [code]

section \<open>The loop, one pass at a time\<close>

lemma crawl_break:
  "iteration g a b v l s = (Break, l', s') \<Longrightarrow> crawl g a b v l s = Some (l', s')"
  by (subst crawl.simps) simp

lemma crawl_continue:
  "iteration g a b v l s = (Continue, l', s') \<Longrightarrow> crawl g a b v l s = crawl g a b v l' s'"
  by (subst crawl.simps) simp

lemma iteration_raise:
  "g a b 100 (before_name l) s = (Inl e, s1) \<Longrightarrow>
   iteration g a b v l s = (Break, l, print (Printed_exc e) s1)"
  by (simp add: iteration_def)

lemma iteration_empty_first:
  "g a b 100 (before_name l) s = (Inr [], s1) \<Longrightarrow> data l = [] \<Longrightarrow>
   iteration g a b v l s = (Break, l, print (Printed_exc IndexError) s1)"
  by (simp add: iteration_def)

lemma iteration_empty:
  "g a b 100 (before_name l) s = (Inr [], s1) \<Longrightarrow> data_size l = length (data l) \<Longrightarrow>
   \<exists>l' s'. iteration g a b v l s = (Break, l', s') \<and> data l' = data l"
  by (simp add: iteration_def Let_def)

lemma iteration_more:
  "g a b 100 (before_name l) s = (Inr f, s1) \<Longrightarrow> f \<noteq> [] \<Longrightarrow> data_size l = length (data l) \<Longrightarrow>
   \<exists>l' s'. iteration g a b v l s = (Continue, l', s') \<and> data l' = data l @ f \<and>
     before_name l' = fst (last f) \<and> data_size l' = length (data l')"
  by (simp add: iteration_def Let_def)

lemma fetches_Suc_cases:
  assumes inv: "data_size l = length (data l)"
  obtains (stop) r s1 l' s' where "g a b 100 (before_name l) s = (r, s1)" "final r"
      "iteration g a b v l s = (Break, l', s')" "data l' = data l @ batch_of r"
      "\<And>n. fetches (Suc n) g a b v l s = [(before_name l, r)]"
  | (go) f s1 l' s' where "g a b 100 (before_name l) s = (Inr f, s1)" "f \<noteq> []"
      "iteration g a b v l s = (Continue, l', s')" "data l' = data l @ f"
      "before_name l' = fst (last f)" "data_size l' = length (data l')"
      "\<And>n. fetches (Suc n) g a b v l s = (before_name l, Inr f) # fetches n g a b v l' s'"
proof (cases "g a b 100 (before_name l) s")
  case (Pair r s1)
  show thesis
  proof (cases r)
    case (Inl e)
    with Pair have "iteration g a b v l s = (Break, l, print (Printed_exc e) s1)"
      by (simp add: iteration_raise)
    with Pair Inl show thesis by (intro stop[of r s1 l]) auto
  next
    case (Inr f)
    show thesis
    proof (cases "f = []")
      case True
      with Pair Inr inv obtain l' s' where
        "iteration g a b v l s = (Break, l', s')" "data l' = data l"
        using iteration_empty[of g a b l s s1 v] by auto
      with Pair Inr True show thesis by (intro stop[of r s1 l' s']) auto
    next
      case False
      with Pair Inr inv obtain l' s' where
        "iteration g a b v l s = (Continue, l', s')" "data l' = data l @ f"
        "before_name l' = fst (last f)" "data_size l' = length (data l')"
        using iteration_more[of g a b l s f s1 v] by auto
      with Pair Inr False show thesis by (intro go[of f s1 l' s']) auto
    qed
  qed
qed

lemma crawl_fetches:
  assumes "data_size l = length (data l)"
    and "fetches n g a b v l s = tr" and "tr \<noteq> []" and "final (snd (last tr))"
  shows "\<exists>l' s'. crawl g a b v l s = Some (l', s') \<and>
           data l' = data l @ concat (map (\<lambda>x. batch_of (snd x)) tr)"
  using assms
proof (induction n arbitrary: l s tr)
  case 0
  then show ?case by simp
next
  case (Suc n)
  from Suc.prems(1) show ?case
  proof (cases rule: fetches_Suc_cases[of l g a b s v])
    case (stop r s1 l' s')
    then show ?thesis using Suc.prems by (auto simp: crawl_break)
  next
    case (go f s1 l' s')
    let ?tr' = "fetches n g a b v l' s'"
    from go Suc.prems have tr: "tr = (before_name l, Inr f) # ?tr'" by simp
    with Suc.prems go have ne: "?tr' \<noteq> []" by (cases "?tr' = []") auto
    with tr Suc.prems have "final (snd (last ?tr'))" by simp
    with Suc.IH[OF go(6) refl ne] obtain l'' s'' where
      "crawl g a b v l' s' = Some (l'', s'')"
      "data l'' = data l' @ concat (map (\<lambda>x. batch_of (snd x)) ?tr')" by blast
    with go tr show ?thesis by (simp add: crawl_continue)
  qed
qed

lemma fetches_not_final:
  assumes "data_size l = length (data l)"
  shows "\<forall>x \<in> set (butlast (fetches n g a b v l s)). \<not> final (snd x)"
  using assms
proof (induction n arbitrary: l s)
  case 0
  then show ?case by simp
next
  case (Suc n)
  from Suc.prems show ?case
  proof (cases rule: fetches_Suc_cases[of l g a b s v])
    case (stop r s1 l' s')
    then show ?thesis by simp
  next
    case (go f s1 l' s')
    with Suc.IH[OF go(6), of s'] show ?thesis by (auto split: if_splits)
  qed
qed

lemma fetches_cursors:
  assumes "data_size l = length (data l)"
  shows "map fst (fetches (Suc n) g a b v l s) =
         before_name l # map (\<lambda>x. fst (last (batch_of (snd x)))) (butlast (fetches (Suc n) g a b v l s))"
  using assms
proof (induction n arbitrary: l s)
  case 0
  from 0 show ?case
  proof (cases rule: fetches_Suc_cases[of l g a b s v])
    case (stop r s1 l' s')
    from stop(5)[of 0] show ?thesis by simp
  next
    case (go f s1 l' s')
    from go(7)[of 0] show ?thesis by simp
  qed
next
  case (Suc n)
  from Suc.prems show ?case
  proof (cases rule: fetches_Suc_cases[of l g a b s v])
    case (stop r s1 l' s')
    from stop(5)[of "Suc n"] show ?thesis by simp
  next
    case (go f s1 l' s')
    have "fetches (Suc n) g a b v l' s' \<noteq> []" by simp
    with Suc.IH[OF go(6), of s'] go(5) go(7)[of "Suc n"] show ?thesis
      by (simp del: fetches.simps(2))
  qed
qed

lemmas ev = scripted_def loader_def post_item_def listing_def page_def
  get_single_batch_post_from_reddit_def get_json_def http_def children_def field_def
  and_then_def before_param_def iteration_def print_def locals0_def start_def Let_def

lemma get_all_data_collect:
  "type = ''post'' \<or> type = ''comment'' \<Longrightarrow>
   get_all_data type a b v s = collect (fetcher type) type a b v s"
  by (auto simp: get_all_data_def fetcher_def)

lemma make_dataframe_valid:
  "type = ''post'' \<or> type = ''comment'' \<Longrightarrow>
   make_dataframe type d s =
     (Inr \<lparr>columns = [''name'', ''title'', if type = ''post'' then ''text'' else ''comment''],
           rows = d\<rparr>, s)"
  by (auto simp: make_dataframe_def)

section \<open>What a fetch may change and what it may read\<close>

lemma http_frame: "snd (http r s) = s\<lparr>sent := sent s @ [r]\<rparr>"
  by (simp add: http_def Let_def)

lemma http_stdout: "http r (s\<lparr>stdout := x\<rparr>) = (fst (http r s), (snd (http r s))\<lparr>stdout := x\<rparr>)"
  by (simp add: http_def Let_def)

lemma get_json_frame:
  "snd (get_json u ps s) =
     s\<lparr>sent := sent s @ [\<lparr>meth = GET, target = u, hdrs = headers s, params = ps,
                             auth = None, form = []\<rparr>]\<rparr>"
  by (simp add: get_json_def http_def Let_def split: reply.splits option.splits)

lemma get_json_stdout:
  "get_json u ps (s\<lparr>stdout := x\<rparr>) = (fst (get_json u ps s), (snd (get_json u ps s))\<lparr>stdout := x\<rparr>)"
  by (simp add: get_json_def http_def Let_def split: reply.splits option.splits)

text \<open>The part of the state a fetch cannot change: everything but the log of requests.\<close>

lemma post_frame:
  "\<exists>log. snd (get_single_batch_post_from_reddit a b n c s) = s\<lparr>sent := sent s @ log\<rparr>"
proof (cases "get_json (ListingUri a b) ([(''limit'', JNum n), (''raw_json'', JNum 1)] @ before_param c) s")
  case (Pair r s')
  with get_json_frame[of "ListingUri a b" "[(''limit'', JNum n), (''raw_json'', JNum 1)] @ before_param c" s]
  show ?thesis
    by (cases r) (auto simp: get_single_batch_post_from_reddit_def)
qed

lemma post_stdout:
  "get_single_batch_post_from_reddit a b n c (s\<lparr>stdout := x\<rparr>) =
     (fst (get_single_batch_post_from_reddit a b n c s),
      (snd (get_single_batch_post_from_reddit a b n c s))\<lparr>stdout := x\<rparr>)"
  by (simp add: get_single_batch_post_from_reddit_def get_json_stdout split: prod.splits sum.splits)

lemma frame_refl: "\<exists>log. s = s\<lparr>sent := sent s @ log\<rparr>"
  by (rule exI[of _ "[]"]) simp

lemma post_comments_frame:
  "\<exists>log. snd (post_comments sort_by posts d s) = s\<lparr>sent := sent s @ log\<rparr>"
proof (induction posts arbitrary: d s)
  case Nil
  show ?case by (simp add: frame_refl)
next
  case (Cons post posts)
  show ?case
  proof (cases "and_then (field post ''name'') (\<lambda>post_name.
           and_then (field post ''title'') (\<lambda>post_title.
           and_then (field post ''id'') (\<lambda>post_id. Inr (post_name, post_title, post_id))))")
    case (Inl e)
    with Inl show ?thesis by (simp add: frame_refl)
  next
    case (Inr trip)
    obtain pn pt pid where trip: "trip = (pn, pt, pid)" by (cases trip)
    obtain r s' where g: "get_json (CommentsUri pid) (comment_params sort_by) s = (r, s')"
      by (cases "get_json (CommentsUri pid) (comment_params sort_by) s")
    from get_json_frame[of "CommentsUri pid" "comment_params sort_by" s] g
    have s': "s' = s\<lparr>sent := sent s @ [\<lparr>meth = GET, target = CommentsUri pid, hdrs = headers s,
        params = comment_params sort_by, auth = None, form = []\<rparr>]\<rparr>" by simp
    show ?thesis
    proof (cases r)
      case (Inl e)
      with Inr trip g s' show ?thesis by auto
    next
      case raw: (Inr raw_comments)
      show ?thesis
      proof (cases "and_then (and_then (getitem_int raw_comments 1) children)
                       (\<lambda>comments. comment_rows pn pt comments d)")
        case (Inl e)
        with Inr trip g s' raw show ?thesis by auto
      next
        case d': (Inr d')
        from Cons.IH[of d' s'] obtain log where
          "snd (post_comments sort_by posts d' s') = s'\<lparr>sent := sent s' @ log\<rparr>" by blast
        with Inr trip g s' raw d' show ?thesis by auto
      qed
    qed
  qed
qed

lemma post_comments_stdout:
  "post_comments sort_by posts d (s\<lparr>stdout := x\<rparr>) =
     (fst (post_comments sort_by posts d s), (snd (post_comments sort_by posts d s))\<lparr>stdout := x\<rparr>)"
proof (induction posts arbitrary: d s)
  case Nil
  then show ?case by simp
next
  case (Cons post posts)
  show ?case
    by (simp add: get_json_stdout Cons.IH split: prod.splits sum.splits)
qed

lemma comment_frame:
  "\<exists>log. snd (get_single_batch_post_comment_from_reddit a b n c s) = s\<lparr>sent := sent s @ log\<rparr>"
proof -
  let ?ps = "[(''limit'', JNum n), (''raw_json'', JNum 1), (''t'', JStr ''all'')] @ before_param c"
  obtain r s' where g: "get_json (ListingUri a ''top'') ?ps s = (r, s')"
    by (cases "get_json (ListingUri a ''top'') ?ps s")
  from get_json_frame[of "ListingUri a ''top''" ?ps s] g
  have s': "s' = s\<lparr>sent := sent s @ [\<lparr>meth = GET, target = ListingUri a ''top'', hdrs = headers s,
        params = ?ps, auth = None, form = []\<rparr>]\<rparr>" by simp
  show ?thesis
  proof (cases r)
    case (Inl e)
    with g s' show ?thesis by (auto simp: get_single_batch_post_comment_from_reddit_def)
  next
    case raw: (Inr raw)
    show ?thesis
    proof (cases "children raw")
      case (Inl e)
      with g s' raw show ?thesis by (auto simp: get_single_batch_post_comment_from_reddit_def)
    next
      case (Inr posts)
      from post_comments_frame[of b posts "[]" s'] obtain log where
        "snd (post_comments b posts [] s') = s'\<lparr>sent := sent s' @ log\<rparr>" by blast
      with g s' raw Inr show ?thesis by (auto simp: get_single_batch_post_comment_from_reddit_def)
    qed
  qed
qed

lemma comment_stdout:
  "get_single_batch_post_comment_from_reddit a b n c (s\<lparr>stdout := x\<rparr>) =
     (fst (get_single_batch_post_comment_from_reddit a b n c s),
      (snd (get_single_batch_post_comment_from_reddit a b n c s))\<lparr>stdout := x\<rparr>)"
  by (simp add: get_single_batch_post_comment_from_reddit_def get_json_stdout post_comments_stdout
      split: prod.splits sum.splits)

lemma fetcher_frame: "\<exists>log. snd (fetcher type a b n c s) = s\<lparr>sent := sent s @ log\<rparr>"
  by (simp add: fetcher_def post_frame comment_frame)

lemma fetcher_stdout:
  "fetcher type a b n c (s\<lparr>stdout := x\<rparr>) =
     (fst (fetcher type a b n c s), (snd (fetcher type a b n c s))\<lparr>stdout := x\<rparr>)"
  by (simp add: fetcher_def post_stdout comment_stdout)

lemma iteration_frame:
  assumes "\<And>a b n c s. \<exists>log. snd (g a b n c s) = s\<lparr>sent := sent s @ log\<rparr>"
  shows "\<exists>log out. snd (snd (iteration g a b v l s)) =
           s\<lparr>sent := sent s @ log, stdout := stdout s @ out\<rparr>"
proof -
  obtain r s1 where g: "g a b 100 (before_name l) s = (r, s1)"
    by (cases "g a b 100 (before_name l) s")
  with assms[of a b 100 "before_name l" s] obtain log where s1: "s1 = s\<lparr>sent := sent s @ log\<rparr>"
    by auto
  have 0: "\<exists>log out. s1 = s\<lparr>sent := sent s @ log, stdout := stdout s @ out\<rparr>"
    unfolding s1 by (rule exI[of _ log], rule exI[of _ "[]"]) simp
  have 1: "\<exists>log out. print x s1 = s\<lparr>sent := sent s @ log, stdout := stdout s @ out\<rparr>" for x
    unfolding s1 by (rule exI[of _ log], rule exI[of _ "[x]"]) (simp add: print_def)
  show ?thesis
    using g 0 1 by (cases r) (simp_all add: iteration_def Let_def)
qed

lemma crawl_frame:
  assumes fr: "\<And>a b n c s. \<exists>log. snd (g a b n c s) = s\<lparr>sent := sent s @ log\<rparr>"
    and "crawl g a b v l s = Some (l', s')"
  shows "\<exists>log out. s' = s\<lparr>sent := sent s @ log, stdout := stdout s @ out\<rparr>"
  using fr
proof (induction g a b v l s "(l', s')" rule: crawl.raw_induct)
  case (1 crawl g a b v l s)
  obtain c l1 s1 where it: "iteration g a b v l s = (c, l1, s1)"
    by (cases "iteration g a b v l s")
  from iteration_frame[of g a b v l s, OF "1.prems"] it obtain log out where
    s1: "s1 = s\<lparr>sent := sent s @ log, stdout := stdout s @ out\<rparr>" by auto
  show ?case
  proof (cases c)
    case Break
    with "1.hyps"(2) it s1 show ?thesis by auto
  next
    case Continue
    with "1.hyps"(2) it have "crawl g a b v l1 s1 = Some (l', s')" by simp
    from "1.hyps"(1)[OF this "1.prems"] obtain log' out' where
      "s' = s1\<lparr>sent := sent s1 @ log', stdout := stdout s1 @ out'\<rparr>" by blast
    then have "s' = s\<lparr>sent := sent s @ (log @ log'), stdout := stdout s @ (out @ out')\<rparr>"
      unfolding s1 by simp
    then show ?thesis by blast
  qed
qed fact

lemma iteration_verbose:
  assumes so: "\<And>a b n c s x. g a b n c (s\<lparr>stdout := x\<rparr>) = (fst (g a b n c s), (snd (g a b n c s))\<lparr>stdout := x\<rparr>)"
    and rel: "data l' = data l" "before_name l' = before_name l" "data_size l' = data_size l"
      "t = s\<lparr>stdout := x\<rparr>"
    and it: "iteration g a b v l s = (c, l1, s1)"
  shows "\<exists>l1' y. iteration g a b v' l' t = (c, l1', s1\<lparr>stdout := y\<rparr>) \<and>
           data l1' = data l1 \<and> before_name l1' = before_name l1 \<and> data_size l1' = data_size l1"
proof -
  obtain r s2 where g: "g a b 100 (before_name l) s = (r, s2)"
    by (cases "g a b 100 (before_name l) s")
  with so[where a=a and b=b and n=100 and c="before_name l" and s=s and x=x] rel
  have g': "g a b 100 (before_name l') t = (r, s2\<lparr>stdout := x\<rparr>)" by simp
  show ?thesis
  proof (cases r)
    case (Inl e)
    with g g' it show ?thesis
      by (auto simp: iteration_def print_def rel)
  next
    case (Inr f)
    with g g' it rel(1-3) show ?thesis
      by (auto simp: iteration_def print_def Let_def split: if_splits)
  qed
qed

lemma crawl_verbose:
  assumes so: "\<And>a b n c s x. g a b n c (s\<lparr>stdout := x\<rparr>) = (fst (g a b n c s), (snd (g a b n c s))\<lparr>stdout := x\<rparr>)"
    and "crawl g a b v l s = Some (lf, sf)"
    and "data l' = data l" "before_name l' = before_name l" "data_size l' = data_size l"
  shows "\<exists>lf' y. crawl g a b v' l' (s\<lparr>stdout := x\<rparr>) = Some (lf', sf\<lparr>stdout := y\<rparr>) \<and> data lf' = data lf"
  using so assms(3-)
proof (induction g a b v l s "(lf, sf)" arbitrary: l' x rule: crawl.raw_induct)
  case (1 crawl g a b v l s)
  obtain c l1 s1 where it: "iteration g a b v l s = (c, l1, s1)"
    by (cases "iteration g a b v l s")
  from iteration_verbose[where v'=v' and x=x, OF "1.prems"(1,2,3,4) refl it]
  obtain l1' y where it': "iteration g a b v' l' (s\<lparr>stdout := x\<rparr>) = (c, l1', s1\<lparr>stdout := y\<rparr>)"
    and r: "data l1' = data l1" "before_name l1' = before_name l1" "data_size l1' = data_size l1"
    by blast
  show ?case
  proof (cases c)
    case Break
    with "1.hyps"(2) it it' r show ?thesis by (auto simp: crawl_break)
  next
    case Continue
    with "1.hyps"(2) it have "crawl g a b v l1 s1 = Some (lf, sf)" by simp
    from "1.hyps"(1)[OF this "1.prems"(1) r, of y] Continue it' show ?thesis
      by (simp add: crawl_continue)
  qed
qed fact

lemma start_stdout: "(start v s)\<lparr>stdout := stdout (start v' s)\<rparr> = start v' s"
  by (simp add: start_def print_def)

lemma collect_verbose:
  assumes "collect (fetcher type) type a b v s = Some (r, sf)"
  shows "\<exists>y. collect (fetcher type) type a b v' s = Some (r, sf\<lparr>stdout := y\<rparr>)"
proof -
  from assms obtain lf sf0 where
    c: "crawl (fetcher type) a b v locals0 (start v s) = Some (lf, sf0)"
    and m: "make_dataframe type (data lf) sf0 = (r, sf)"
    by (auto simp: collect_def split: option.splits)
  from crawl_verbose[of "fetcher type" a b v locals0 "start v s" lf sf0 locals0 v' "stdout (start v' s)",
      OF fetcher_stdout c]
  obtain lf' y where
    c': "crawl (fetcher type) a b v' locals0 (start v' s) = Some (lf', sf0\<lparr>stdout := y\<rparr>)"
    and d: "data lf' = data lf"
    by (auto simp: start_stdout)
  from m have "make_dataframe type (data lf) (sf0\<lparr>stdout := y\<rparr>) = (r, sf\<lparr>stdout := y\<rparr>)"
    by (auto simp: make_dataframe_def split: if_splits)
  with c' d show ?thesis by (auto simp: collect_def)
qed

lemma get_all_data_verbose:
  assumes "get_all_data type a b v s = Some (r, sf)"
  shows "\<exists>y. get_all_data type a b v' s = Some (r, sf\<lparr>stdout := y\<rparr>)"
proof (cases "type = ''post'' \<or> type = ''comment''")
  case True
  with assms collect_verbose[of type a b v s r sf v'] show ?thesis
    by (simp add: get_all_data_collect)
next
  case False
  with assms have "r = Inl (Exception ''Invalid type'')" "sf = s"
    by (auto simp: get_all_data_def)
  moreover have "s = s\<lparr>stdout := stdout s\<rparr>" by simp
  ultimately show ?thesis using False
    by (auto simp: get_all_data_def intro: exI[of _ "stdout s"])
qed

lemma get_token_frame: "headers (snd (get_token s)) = headers s \<and> config (snd (get_token s)) = config s"
  by (simp add: get_token_def http_def Let_def print_def and_then_def
      split: sum.splits reply.splits option.splits prod.splits exc.splits)

lemma init_headers:
  assumes "init path s = (Inr (), s')"
  shows "\<exists>t. headers s' = [(''User-Agent'', ''MyBot/0.0.1''), (''Authorization'', ''bearer '' @ t)]"
proof -
  from assms obtain cfg where f: "files s path = Inr cfg"
    by (cases "files s path") (auto simp: init_def)
  let ?s0 = "s\<lparr>config := cfg, headers := [(''User-Agent'', ''MyBot/0.0.1'')]\<rparr>"
  obtain r s1 where g: "get_token ?s0 = (r, s1)" by (cases "get_token ?s0")
  with get_token_frame[of ?s0] have h1: "headers s1 = [(''User-Agent'', ''MyBot/0.0.1'')]" by simp
  from assms f g obtain tok where r: "r = Inr tok" by (cases r) (auto simp: init_def)
  from assms f g r obtain t where t: "tok = JStr t" by (cases tok) (auto simp: init_def)
  from assms f g r t h1 have
    "headers s' = [(''User-Agent'', ''MyBot/0.0.1''), (''Authorization'', ''bearer '' @ t)]"
    by (auto simp: init_def http_def Let_def print_def split: reply.splits if_splits)
  then show ?thesis by blast
qed

section \<open>The loops of comment mode\<close>

lemma py_in_False: "py_in k d = Inr False \<Longrightarrow> \<exists>e. getitem d k = Inl e"
  by (cases d) (auto simp: map_of_eq_None_iff split: option.splits)

lemma comment_rows_ok:
  "comment_rows n t cs d = Inr rs \<Longrightarrow>
   rs = d @ map (\<lambda>c. (n, t, the_field c ''body'')) (filter has_body cs)"
proof (induction cs arbitrary: d)
  case Nil
  then show ?case by simp
next
  case (Cons c cs)
  from Cons.prems obtain dd where dd: "getitem c ''data'' = Inr dd"
    by (cases "getitem c ''data''") (auto simp: and_then_def)
  with Cons.prems obtain has where has: "py_in ''body'' dd = Inr has"
    by (cases "py_in ''body'' dd") (auto simp: and_then_def)
  show ?case
  proof (cases has)
    case True
    with Cons.prems dd has obtain b where b: "getitem dd ''body'' = Inr b"
      by (cases "getitem dd ''body''") (auto simp: and_then_def field_def)
    with Cons.prems dd has True have "comment_rows n t cs (d @ [(n, t, b)]) = Inr rs"
      by (simp add: and_then_def field_def)
    from Cons.IH[OF this] dd b show ?thesis
      by (simp add: has_body_def the_field_def field_def and_then_def)
  next
    case False
    with has py_in_False[of "''body''" dd] obtain e where "getitem dd ''body'' = Inl e" by auto
    with dd have nb: "\<not> has_body c" by (simp add: has_body_def field_def and_then_def)
    from Cons.prems dd has False have "comment_rows n t cs d = Inr rs"
      by (simp add: and_then_def)
    from Cons.IH[OF this] nb show ?thesis by simp
  qed
qed

lemma get_json_ok:
  assumes "get_json u ps s = (Inr j, s')"
  shows "\<exists>code. upstream s (sent s @ [\<lparr>meth = GET, target = u, hdrs = headers s, params = ps,
                             auth = None, form = []\<rparr>]) = Resp code (Some j)"
  using assms by (auto simp: get_json_def http_def Let_def split: reply.splits option.splits)

lemma post_comments_ok:
  assumes "post_comments sort_by posts d s = (Inr rs, s')"
  shows "sent s' = sent s @ map (comment_request (headers s) sort_by) posts \<and>
         rs = d @ concat (map (\<lambda>i. rows_of_post (posts ! i)
                (thread (upstream s (sent s @ map (comment_request (headers s) sort_by)
                                               (take (Suc i) posts)))))
              [0..<length posts]) \<and>
         (\<forall>post \<in> set posts. \<forall>k \<in> {''name'', ''title'', ''id''}. \<exists>v. field post k = Inr v)"
  using assms
proof (induction posts arbitrary: d s)
  case Nil
  then show ?case by simp
next
  case (Cons post posts)
  let ?F = "and_then (field post ''name'') (\<lambda>post_name.
           and_then (field post ''title'') (\<lambda>post_title.
           and_then (field post ''id'') (\<lambda>post_id. Inr (post_name, post_title, post_id))))"
  from Cons.prems obtain pn pt pid where F: "?F = Inr (pn, pt, pid)"
    by (cases ?F) auto
  then have fl: "field post ''name'' = Inr pn" "field post ''title'' = Inr pt"
    "field post ''id'' = Inr pid"
    by (auto simp: and_then_def split: sum.splits)
  let ?r = "comment_request (headers s) sort_by post"
  have req: "?r = \<lparr>meth = GET, target = CommentsUri pid, hdrs = headers s,
      params = comment_params sort_by, auth = None, form = []\<rparr>"
    using fl by (simp add: comment_request_def the_field_def)
  obtain r s1 where g: "get_json (CommentsUri pid) (comment_params sort_by) s = (r, s1)"
    by (cases "get_json (CommentsUri pid) (comment_params sort_by) s")
  from get_json_frame[of "CommentsUri pid" "comment_params sort_by" s] g req
  have s1: "s1 = s\<lparr>sent := sent s @ [?r]\<rparr>" by simp
  from Cons.prems F g obtain raw where raw: "r = Inr raw" by (cases r) auto
  from get_json_ok[of "CommentsUri pid" "comment_params sort_by" s raw s1] g raw req
  obtain code where up: "upstream s (sent s @ [?r]) = Resp code (Some raw)" by auto
  let ?C = "and_then (and_then (getitem_int raw 1) children)
              (\<lambda>comments. comment_rows pn pt comments d)"
  from Cons.prems F g raw obtain d' where d': "?C = Inr d'" by (cases ?C) auto
  then obtain cs where cs: "and_then (getitem_int raw 1) children = Inr cs"
    and cr: "comment_rows pn pt cs d = Inr d'"
    by (cases "and_then (getitem_int raw 1) children") (auto simp: and_then_def)
  from up cs have th: "thread (upstream s (sent s @ [?r])) = cs" by (simp add: thread_def)
  from comment_rows_ok[OF cr] fl have d'eq: "d' = d @ rows_of_post post cs"
    by (simp add: rows_of_post_def the_field_def)
  from Cons.prems F g raw d' have rec: "post_comments sort_by posts d' s1 = (Inr rs, s')" by simp
  from Cons.IH[OF rec] have
    ih1: "sent s' = sent s1 @ map (comment_request (headers s1) sort_by) posts"
    and ih2: "rs = d' @ concat (map (\<lambda>i. rows_of_post (posts ! i)
                (thread (upstream s1 (sent s1 @ map (comment_request (headers s1) sort_by)
                                               (take (Suc i) posts)))))
              [0..<length posts])"
    and ih3: "\<forall>post \<in> set posts. \<forall>k \<in> {''name'', ''title'', ''id''}. \<exists>v. field post k = Inr v"
    by blast+
  have 1: "sent s' = sent s @ map (comment_request (headers s) sort_by) (post # posts)"
    using ih1 s1 by simp
  have upt: "[0..<length (post # posts)] = 0 # map Suc [0..<length posts]"
    by (simp add: upt_conv_Cons map_Suc_upt del: upt_Suc)
  have 2: "rs = d @ concat (map (\<lambda>i. rows_of_post ((post # posts) ! i)
                (thread (upstream s (sent s @ map (comment_request (headers s) sort_by)
                                               (take (Suc i) (post # posts))))))
              [0..<length (post # posts)])"
    unfolding upt using ih2 d'eq th s1 by (simp add: comp_def)
  have 3: "\<forall>p \<in> set (post # posts). \<forall>k \<in> {''name'', ''title'', ''id''}. \<exists>v. field p k = Inr v"
    using ih3 fl by simp
  from 1 2 3 show ?case by blast
qed

section \<open>Properties of the crawl\<close>

text \<open>
  Claim C1. Let the crawl make its fetches until one of them returns no record or raises
  (the last entry of the trace \<open>tr\<close> is such a fetch). Then \<open>get_all_data\<close> returns a
  table whose number of rows is the sum of the sizes of the batches fetched, a raising
  fetch counting for none, and the fetch that ended the crawl is the first of its kind.
\<close>

theorem crawl_size:
  assumes "type = ''post'' \<or> type = ''comment''"
    and "tr = fetches n (fetcher type) subreddit sort_by verbose locals0 (start verbose s)"
    and "tr \<noteq> []" and "final (snd (last tr))"
  shows "\<exists>t s'. get_all_data type subreddit sort_by verbose s = Some (Inr t, s') \<and>
           length (rows t) = sum_list (map (\<lambda>x. length (batch_of (snd x))) tr) \<and>
           (\<forall>x \<in> set (butlast tr). \<not> final (snd x))"
proof -
  have inv: "data_size locals0 = length (data locals0)" by (simp add: locals0_def)
  from crawl_fetches[OF inv assms(2)[symmetric] assms(3,4)] obtain l' s' where
    c: "crawl (fetcher type) subreddit sort_by verbose locals0 (start verbose s) = Some (l', s')"
    and d: "data l' = concat (map (\<lambda>x. batch_of (snd x)) tr)"
    by (auto simp: locals0_def)
  have "length (data l') = sum_list (map (\<lambda>x. length (batch_of (snd x))) tr)"
    unfolding d by (simp add: length_concat comp_def)
  moreover have "\<forall>x \<in> set (butlast tr). \<not> final (snd x)"
    unfolding assms(2) by (rule fetches_not_final[OF inv])
  ultimately show ?thesis
    using assms(1) c
    by (simp add: get_all_data_collect collect_def make_dataframe_valid)
qed

theorem crawl_size_witness:
  "(''post'' = ''post'' \<or> ''post'' = ''comment'') \<and>
   fetches 3 (fetcher ''post'') ''sad'' ''new'' True locals0
     (start True (loader [page [example_a, example_b], page [example_c], page []])) =
   [(JNull, Inr [(JStr ''t3_a'', JStr ''A'', JStr ''x''), (JStr ''t3_b'', JStr ''B'', JStr ''y'')]),
    (JStr ''t3_b'', Inr [(JStr ''t3_c'', JStr ''C'', JStr ''z'')]),
    (JStr ''t3_c'', Inr [])] \<and>
   (\<exists>t s'. get_all_data ''post'' ''sad'' ''new'' True
              (loader [page [example_a, example_b], page [example_c], page []]) = Some (Inr t, s') \<and>
            length (rows t) = 3)"
proof -
  let ?s = "loader [page [example_a, example_b], page [example_c], page []]"
  have h: "fetches 3 (fetcher ''post'') ''sad'' ''new'' True locals0 (start True ?s) =
   [(JNull, Inr [(JStr ''t3_a'', JStr ''A'', JStr ''x''), (JStr ''t3_b'', JStr ''B'', JStr ''y'')]),
    (JStr ''t3_b'', Inr [(JStr ''t3_c'', JStr ''C'', JStr ''z'')]),
    (JStr ''t3_c'', Inr [])]"
    by (simp add: ev fetcher_def example_a_def example_b_def example_c_def numeral_3_eq_3)
  have "\<exists>t s'. get_all_data ''post'' ''sad'' ''new'' True ?s = Some (Inr t, s') \<and>
            length (rows t) = 3"
    using crawl_size[of "''post''" _ 3 "''sad''" "''new''" True ?s, OF _ h[symmetric]]
    by (simp add: numeral_3_eq_3)
  with h show ?thesis by blast
qed

text \<open>
  Claim C3. When a fetch of the crawl raises, after the fetches \<open>pre\<close>, \<open>get_all_data\<close>
  returns a table (it does not raise) whose rows are exactly the batches of \<open>pre\<close>, in
  order; each of them was a successful, non-empty fetch. With a valid type, whenever
  \<open>get_all_data\<close> returns, it returns a table.
\<close>

theorem crawl_fetch_error:
  assumes "type = ''post'' \<or> type = ''comment''"
    and "fetches n (fetcher type) subreddit sort_by verbose locals0 (start verbose s) =
           pre @ [(c, Inl e)]"
  shows "(\<exists>s'. get_all_data type subreddit sort_by verbose s =
            Some (Inr \<lparr>columns = [''name'', ''title'', if type = ''post'' then ''text'' else ''comment''],
                       rows = concat (map (\<lambda>x. batch_of (snd x)) pre)\<rparr>, s')) \<and>
         (\<forall>x \<in> set pre. \<exists>b. snd x = Inr b \<and> b \<noteq> []) \<and>
         (\<forall>s0 r s'. get_all_data type subreddit sort_by verbose s0 = Some (r, s') \<longrightarrow>
            (\<exists>t. r = Inr t))"
proof -
  let ?tr = "pre @ [(c, Inl e)]"
  have inv: "data_size locals0 = length (data locals0)" by (simp add: locals0_def)
  have "?tr \<noteq> []" "final (snd (last ?tr))" by simp_all
  from crawl_fetches[OF inv assms(2) this] obtain l' s' where
    c: "crawl (fetcher type) subreddit sort_by verbose locals0 (start verbose s) = Some (l', s')"
    and d: "data l' = concat (map (\<lambda>x. batch_of (snd x)) pre)"
    by (auto simp: locals0_def)
  have 1: "\<exists>s'. get_all_data type subreddit sort_by verbose s =
            Some (Inr \<lparr>columns = [''name'', ''title'', if type = ''post'' then ''text'' else ''comment''],
                       rows = concat (map (\<lambda>x. batch_of (snd x)) pre)\<rparr>, s')"
    using assms(1) c d by (simp add: get_all_data_collect collect_def make_dataframe_valid)
  from fetches_not_final[OF inv, of n "fetcher type" subreddit sort_by verbose "start verbose s"]
  have "\<forall>x \<in> set pre. \<not> final (snd x)" unfolding assms(2) by simp
  then have 2: "\<forall>x \<in> set pre. \<exists>b. snd x = Inr b \<and> b \<noteq> []"
  proof (intro ballI)
    fix x assume "\<forall>x \<in> set pre. \<not> final (snd x)" "x \<in> set pre"
    then have "\<not> final (snd x)" by blast
    then show "\<exists>b. snd x = Inr b \<and> b \<noteq> []" by (cases "snd x") auto
  qed
  have 3: "\<forall>s0 r s'. get_all_data type subreddit sort_by verbose s0 = Some (r, s') \<longrightarrow>
            (\<exists>t. r = Inr t)"
    using assms(1)
    by (auto simp: get_all_data_collect collect_def make_dataframe_valid split: option.splits)
  from 1 2 3 show ?thesis by blast
qed

theorem crawl_fetch_error_witness:
  "(''post'' = ''post'' \<or> ''post'' = ''comment'') \<and>
   fetches 2 (fetcher ''post'') ''sad'' ''new'' False locals0
     (start False (loader [page [example_a, example_b], NetFail])) =
     [(JNull, Inr [(JStr ''t3_a'', JStr ''A'', JStr ''x''), (JStr ''t3_b'', JStr ''B'', JStr ''y'')])]
     @ [(JStr ''t3_b'', Inl ConnectionError)] \<and>
   (\<exists>s'. get_all_data ''post'' ''sad'' ''new'' False (loader [page [example_a, example_b], NetFail]) =
      Some (Inr \<lparr>columns = [''name'', ''title'', ''text''],
                 rows = [(JStr ''t3_a'', JStr ''A'', JStr ''x''),
                         (JStr ''t3_b'', JStr ''B'', JStr ''y'')]\<rparr>, s'))"
proof -
  let ?s = "loader [page [example_a, example_b], NetFail]"
  have h: "fetches 2 (fetcher ''post'') ''sad'' ''new'' False locals0 (start False ?s) =
     [(JNull, Inr [(JStr ''t3_a'', JStr ''A'', JStr ''x''), (JStr ''t3_b'', JStr ''B'', JStr ''y'')])]
     @ [(JStr ''t3_b'', Inl ConnectionError)]"
    by (simp add: ev fetcher_def example_a_def example_b_def numeral_2_eq_2)
  have "\<exists>s'. get_all_data ''post'' ''sad'' ''new'' False ?s =
      Some (Inr \<lparr>columns = [''name'', ''title'', ''text''],
                 rows = [(JStr ''t3_a'', JStr ''A'', JStr ''x''),
                         (JStr ''t3_b'', JStr ''B'', JStr ''y'')]\<rparr>, s')"
    using crawl_fetch_error[of "''post''" 2 "''sad''" "''new''" False ?s _ _ ConnectionError, OF _ h]
    by simp
  with h show ?thesis by blast
qed

text \<open>
  Claim C10. When the very first fetch returns an empty batch, \<open>get_all_data\<close> returns
  the empty table; the state is the one that single fetch left, with the IndexError of
  \<^verbatim>\<open>data[-1]\<close> printed.
\<close>

theorem first_fetch_empty:
  assumes "type = ''post'' \<or> type = ''comment''"
    and "fetcher type subreddit sort_by 100 JNull (start verbose s) = (Inr [], s1)"
  shows "get_all_data type subreddit sort_by verbose s =
           Some (Inr \<lparr>columns = [''name'', ''title'', if type = ''post'' then ''text'' else ''comment''],
                      rows = []\<rparr>,
                 print (Printed_exc IndexError) s1)"
proof -
  from assms(2) have "iteration (fetcher type) subreddit sort_by verbose locals0 (start verbose s) =
      (Break, locals0, print (Printed_exc IndexError) s1)"
    by (intro iteration_empty_first) (simp_all add: locals0_def)
  then have "crawl (fetcher type) subreddit sort_by verbose locals0 (start verbose s) =
      Some (locals0, print (Printed_exc IndexError) s1)"
    by (rule crawl_break)
  with assms(1) show ?thesis
    by (simp add: get_all_data_collect collect_def make_dataframe_valid) (simp add: locals0_def)
qed

theorem first_fetch_empty_witness:
  "(''comment'' = ''post'' \<or> ''comment'' = ''comment'') \<and>
   fetcher ''comment'' ''sad'' ''new'' 100 JNull (start False (loader [page []])) =
     (Inr [], (loader [page []])\<lparr>sent :=
        [\<lparr>meth = GET, target = ListingUri ''sad'' ''top'', hdrs = headers (loader [page []]),
          params = [(''limit'', JNum 100), (''raw_json'', JNum 1), (''t'', JStr ''all'')],
          auth = None, form = []\<rparr>]\<rparr>) \<and>
   get_all_data ''comment'' ''sad'' ''new'' False (loader [page []]) =
     Some (Inr \<lparr>columns = [''name'', ''title'', ''comment''], rows = []\<rparr>,
           (loader [page []])\<lparr>sent :=
        [\<lparr>meth = GET, target = ListingUri ''sad'' ''top'', hdrs = headers (loader [page []]),
          params = [(''limit'', JNum 100), (''raw_json'', JNum 1), (''t'', JStr ''all'')],
          auth = None, form = []\<rparr>], stdout := [Printed_exc IndexError]\<rparr>)"
proof -
  let ?s = "loader [page []]"
  let ?s1 = "?s\<lparr>sent :=
        [\<lparr>meth = GET, target = ListingUri ''sad'' ''top'', hdrs = headers ?s,
          params = [(''limit'', JNum 100), (''raw_json'', JNum 1), (''t'', JStr ''all'')],
          auth = None, form = []\<rparr>]\<rparr>"
  have h: "fetcher ''comment'' ''sad'' ''new'' 100 JNull (start False ?s) = (Inr [], ?s1)"
    by (simp add: ev fetcher_def get_single_batch_post_comment_from_reddit_def)
  from first_fetch_empty[of "''comment''" "''sad''" "''new''" False ?s ?s1, OF _ h] h
  show ?thesis by (simp add: print_def loader_def)
qed

text \<open>
  Claim C2, amended. The first fetch is called with \<^verbatim>\<open>None\<close>, and every later fetch with
  the first field of the last record of the batch fetched just before, which was not
  empty. Nothing more holds: the loop keeps no record of the cursors it has used.
\<close>

theorem cursor_chain:
  "map fst (fetches (Suc n) (fetcher type) subreddit sort_by verbose locals0 (start verbose s)) =
     JNull # map (\<lambda>x. fst (last (batch_of (snd x))))
       (butlast (fetches (Suc n) (fetcher type) subreddit sort_by verbose locals0 (start verbose s)))
   \<and> (\<forall>x \<in> set (butlast (fetches (Suc n) (fetcher type) subreddit sort_by verbose locals0
                                (start verbose s))).
         \<exists>b. snd x = Inr b \<and> b \<noteq> [])"
proof -
  have inv: "data_size locals0 = length (data locals0)" by (simp add: locals0_def)
  let ?tr = "fetches (Suc n) (fetcher type) subreddit sort_by verbose locals0 (start verbose s)"
  have "\<exists>b. snd x = Inr b \<and> b \<noteq> []" if "x \<in> set (butlast ?tr)" for x
  proof -
    from that fetches_not_final[OF inv, of "Suc n" "fetcher type" subreddit sort_by verbose "start verbose s"]
    have "\<not> final (snd x)" by blast
    then show ?thesis by (cases "snd x") auto
  qed
  moreover from fetches_cursors[OF inv, of n "fetcher type" subreddit sort_by verbose "start verbose s"]
  have "map fst ?tr = JNull # map (\<lambda>x. fst (last (batch_of (snd x)))) (butlast ?tr)"
    by (simp add: locals0_def del: fetches.simps)
  ultimately show ?thesis by blast
qed

theorem cursor_chain_witness:
  "map fst (fetches (Suc 2) (fetcher ''post'') ''sad'' ''new'' False locals0
     (start False (loader [page [example_a, example_b], page [example_c], page []]))) =
     [JNull, JStr ''t3_b'', JStr ''t3_c''] \<and>
   butlast (fetches (Suc 2) (fetcher ''post'') ''sad'' ''new'' False locals0
     (start False (loader [page [example_a, example_b], page [example_c], page []]))) =
     [(JNull, Inr [(JStr ''t3_a'', JStr ''A'', JStr ''x''), (JStr ''t3_b'', JStr ''B'', JStr ''y'')]),
      (JStr ''t3_b'', Inr [(JStr ''t3_c'', JStr ''C'', JStr ''z'')])]"
proof -
  let ?tr = "fetches (Suc 2) (fetcher ''post'') ''sad'' ''new'' False locals0
     (start False (loader [page [example_a, example_b], page [example_c], page []]))"
  have h: "butlast ?tr =
     [(JNull, Inr [(JStr ''t3_a'', JStr ''A'', JStr ''x''), (JStr ''t3_b'', JStr ''B'', JStr ''y'')]),
      (JStr ''t3_b'', Inr [(JStr ''t3_c'', JStr ''C'', JStr ''z'')])]"
    by (simp add: ev fetcher_def example_a_def example_b_def example_c_def numeral_2_eq_2)
  from cursor_chain[of 2 "''post''" "''sad''" "''new''" False
      "loader [page [example_a, example_b], page [example_c], page []]"]
  have "map fst ?tr = JNull # map (\<lambda>x. fst (last (batch_of (snd x)))) (butlast ?tr)"
    by (rule conjunct1)
  then have "map fst ?tr = [JNull, JStr ''t3_b'', JStr ''t3_c'']"
    unfolding h by simp
  from this h show ?thesis by (rule conjI)
qed

text \<open>
  Claim C2 as stated fails: when two pages end with the same post, the second and the
  third fetch are called with the same cursor.
\<close>

theorem cursor_reuse_counterexample:
  "fetches 3 (fetcher ''post'') ''sad'' ''new'' False locals0
     (start False (loader [page [example_a], page [example_a], page []])) =
   [(JNull, Inr [(JStr ''t3_a'', JStr ''A'', JStr ''x'')]),
    (JStr ''t3_a'', Inr [(JStr ''t3_a'', JStr ''A'', JStr ''x'')]),
    (JStr ''t3_a'', Inr [])]"
  by (simp add: ev fetcher_def example_a_def numeral_3_eq_3)

section \<open>The table\<close>

text \<open>
  Claim C6. \<open>make_dataframe\<close> gives the columns name, title, text for the type post and
  name, title, comment for the type comment, over the records it was given. For any
  other type it raises \<^verbatim>\<open>Exception('Invalid type')\<close> and there is no table, and
  \<open>get_all_data\<close> raises the same before it fetches anything.
\<close>

theorem make_dataframe_columns:
  "make_dataframe ''post'' d s = (Inr \<lparr>columns = [''name'', ''title'', ''text''], rows = d\<rparr>, s) \<and>
   make_dataframe ''comment'' d s =
     (Inr \<lparr>columns = [''name'', ''title'', ''comment''], rows = d\<rparr>, s) \<and>
   (type \<noteq> ''post'' \<and> type \<noteq> ''comment'' \<longrightarrow>
      make_dataframe type d s = (Inl (Exception ''Invalid type''), s) \<and>
      get_all_data type subreddit sort_by verbose s = Some (Inl (Exception ''Invalid type''), s))"
  by (simp add: make_dataframe_def get_all_data_def)

theorem make_dataframe_columns_witness:
  "''posts'' \<noteq> ''post'' \<and> ''posts'' \<noteq> ''comment'' \<and>
   make_dataframe ''posts'' [(JStr ''t3_a'', JStr ''A'', JStr ''x'')] (loader []) =
     (Inl (Exception ''Invalid type''), loader []) \<and>
   get_all_data ''posts'' ''sad'' ''new'' True (loader []) =
     Some (Inl (Exception ''Invalid type''), loader [])"
  using make_dataframe_columns[of "[(JStr ''t3_a'', JStr ''A'', JStr ''x'')]" "loader []"
      "''posts''" "''sad''" "''new''" True]
  by simp

text \<open>
  Claim C9. \<open>make_dataframe\<close> leaves the state as it is and its result does not depend
  on the state: the same type and records give the same table, whenever it is applied.
\<close>

theorem make_dataframe_pure:
  "snd (make_dataframe type d s) = s \<and>
   fst (make_dataframe type d s) = fst (make_dataframe type d s') \<and>
   fst (make_dataframe type d (snd (make_dataframe type d s))) = fst (make_dataframe type d s)"
  by (simp add: make_dataframe_def)

section \<open>The verbose flag and the session\<close>

text \<open>
  Claim C7. Two runs of \<open>get_all_data\<close> from the same state that differ in the verbose
  flag only either both fail to return or both return, with the same table (or the same
  exception) and with final states that differ in the printed lines only: the same
  requests were issued, in the same order.
\<close>

theorem verbose_only_logging:
  "map_option (\<lambda>(r, s'). (r, s'\<lparr>stdout := []\<rparr>)) (get_all_data type subreddit sort_by verbose s) =
   map_option (\<lambda>(r, s'). (r, s'\<lparr>stdout := []\<rparr>)) (get_all_data type subreddit sort_by verbose' s)"
proof (cases "get_all_data type subreddit sort_by verbose s")
  case None
  have "get_all_data type subreddit sort_by verbose' s = None"
  proof (rule ccontr)
    assume "get_all_data type subreddit sort_by verbose' s \<noteq> None"
    then obtain r sf where "get_all_data type subreddit sort_by verbose' s = Some (r, sf)" by auto
    from get_all_data_verbose[OF this, of verbose] None show False by simp
  qed
  with None show ?thesis by simp
next
  case (Some p)
  obtain r sf where p: "p = (r, sf)" by (cases p)
  from get_all_data_verbose[of type subreddit sort_by verbose s r sf verbose'] Some p
  obtain y where "get_all_data type subreddit sort_by verbose' s = Some (r, sf\<lparr>stdout := y\<rparr>)"
    by auto
  with Some p show ?thesis by simp
qed

text \<open>
  Claim C8. Neither batch function changes \<open>headers\<close> or \<open>config\<close>, and neither does
  \<open>get_all_data\<close> when it returns. The headers are those set by \<open>init\<close>: the User-Agent
  and the bearer Authorization.
\<close>

theorem session_unchanged:
  "headers (snd (get_single_batch_post_from_reddit subreddit sort_by limit c s)) = headers s \<and>
   config (snd (get_single_batch_post_from_reddit subreddit sort_by limit c s)) = config s \<and>
   headers (snd (get_single_batch_post_comment_from_reddit subreddit sort_by limit c s)) = headers s \<and>
   config (snd (get_single_batch_post_comment_from_reddit subreddit sort_by limit c s)) = config s \<and>
   (get_all_data type subreddit sort_by verbose s = Some (r, s') \<longrightarrow>
      headers s' = headers s \<and> config s' = config s) \<and>
   (init path s0 = (Inr (), s1) \<longrightarrow>
      (\<exists>t. headers s1 = [(''User-Agent'', ''MyBot/0.0.1''), (''Authorization'', ''bearer '' @ t)]))"
proof -
  from post_frame[of subreddit sort_by limit c s] have
    1: "headers (snd (get_single_batch_post_from_reddit subreddit sort_by limit c s)) = headers s"
       "config (snd (get_single_batch_post_from_reddit subreddit sort_by limit c s)) = config s"
    by auto
  from comment_frame[of subreddit sort_by limit c s] have
    2: "headers (snd (get_single_batch_post_comment_from_reddit subreddit sort_by limit c s)) = headers s"
       "config (snd (get_single_batch_post_comment_from_reddit subreddit sort_by limit c s)) = config s"
    by auto
  have 3: "headers s' = headers s \<and> config s' = config s"
    if g: "get_all_data type subreddit sort_by verbose s = Some (r, s')"
  proof (cases "type = ''post'' \<or> type = ''comment''")
    case True
    with g obtain lf sf where
      c: "crawl (fetcher type) subreddit sort_by verbose locals0 (start verbose s) = Some (lf, sf)"
      and m: "make_dataframe type (data lf) sf = (r, s')"
      by (auto simp: get_all_data_collect collect_def split: option.splits)
    from crawl_frame[OF fetcher_frame c] obtain log out where
      "sf = (start verbose s)\<lparr>sent := sent (start verbose s) @ log,
                               stdout := stdout (start verbose s) @ out\<rparr>" by blast
    then have "headers sf = headers s \<and> config sf = config s"
      by (simp add: start_def print_def)
    moreover from m have "s' = sf" by (auto simp: make_dataframe_def split: if_splits)
    ultimately show ?thesis by simp
  next
    case False
    with g show ?thesis by (auto simp: get_all_data_def)
  qed
  from 1 2 3 init_headers[of path s0 s1] show ?thesis by blast
qed

theorem session_unchanged_witness:
  "get_all_data ''post'' ''sad'' ''new'' True (loader [page [example_a], page []]) =
     Some (Inr \<lparr>columns = [''name'', ''title'', ''text''],
                rows = [(JStr ''t3_a'', JStr ''A'', JStr ''x'')]\<rparr>,
           (loader [page [example_a], page []])
             \<lparr>sent := [\<lparr>meth = GET, target = ListingUri ''sad'' ''new'',
                         hdrs = headers (loader []),
                         params = [(''limit'', JNum 100), (''raw_json'', JNum 1)],
                         auth = None, form = []\<rparr>,
                       \<lparr>meth = GET, target = ListingUri ''sad'' ''new'',
                         hdrs = headers (loader []),
                         params = [(''limit'', JNum 100), (''raw_json'', JNum 1),
                                   (''before'', JStr ''t3_a'')],
                         auth = None, form = []\<rparr>],
              stdout := [Text ''Getting data...'', Batch_line 1 1, Batch_line 2 1]\<rparr>) \<and>
   headers (loader [page [example_a], page []]) =
     [(''User-Agent'', ''MyBot/0.0.1''), (''Authorization'', ''bearer tok'')] \<and>
   init ''reddit_cred.json''
     (fresh [Resp 200 (Some (JObj [(''access_token'', JStr ''tok'')])), Resp 200 None]) =
     (Inr (), (loader [Resp 200 (Some (JObj [(''access_token'', JStr ''tok'')])), Resp 200 None])
        \<lparr>files := files (fresh []),
         sent := [token_request (JStr ''id'') (JStr ''secret'') (JStr ''user'') (JStr ''pw''),
                  \<lparr>meth = GET, target = MeUri, hdrs = headers (loader []), params = [],
                    auth = None, form = []\<rparr>],
         stdout := [Text ''Success authenticated'']\<rparr>)"
proof -
  let ?s = "loader [page [example_a], page []]"
  let ?f = "fresh [Resp 200 (Some (JObj [(''access_token'', JStr ''tok'')])), Resp 200 None]"
  let ?t = "?s\<lparr>sent := [\<lparr>meth = GET, target = ListingUri ''sad'' ''new'',
                         hdrs = headers (loader []),
                         params = [(''limit'', JNum 100), (''raw_json'', JNum 1)],
                         auth = None, form = []\<rparr>,
                       \<lparr>meth = GET, target = ListingUri ''sad'' ''new'',
                         hdrs = headers (loader []),
                         params = [(''limit'', JNum 100), (''raw_json'', JNum 1),
                                   (''before'', JStr ''t3_a'')],
                         auth = None, form = []\<rparr>],
              stdout := [Text ''Getting data...'', Batch_line 1 1, Batch_line 2 1]\<rparr>"
  let ?g = "(loader [Resp 200 (Some (JObj [(''access_token'', JStr ''tok'')])), Resp 200 None])
        \<lparr>files := files (fresh []),
         sent := [token_request (JStr ''id'') (JStr ''secret'') (JStr ''user'') (JStr ''pw''),
                  \<lparr>meth = GET, target = MeUri, hdrs = headers (loader []), params = [],
                    auth = None, form = []\<rparr>],
         stdout := [Text ''Success authenticated'']\<rparr>"
  have g: "get_all_data ''post'' ''sad'' ''new'' True ?s =
     Some (Inr \<lparr>columns = [''name'', ''title'', ''text''],
                rows = [(JStr ''t3_a'', JStr ''A'', JStr ''x'')]\<rparr>, ?t)"
    apply (simp add: get_all_data_def collect_def)
    apply (subst crawl.simps, simp add: ev example_a_def)
    apply (subst crawl.simps, simp add: ev example_a_def make_dataframe_def)
    done
  have i: "init ''reddit_cred.json'' ?f = (Inr (), ?g)"
    by (simp add: init_def fresh_def get_token_def token_request_def ev)
  from session_unchanged[of "''sad''" "''new''" 100 JNull ?s "''post''" True _ ?t
      "''reddit_cred.json''" ?f ?g] g i
  have "headers ?t = headers ?s" by blast
  then have "headers ?s = [(''User-Agent'', ''MyBot/0.0.1''), (''Authorization'', ''bearer tok'')]"
    by (simp add: loader_def)
  with g i show ?thesis by blast
qed

section \<open>Authentication\<close>

text \<open>
  Claim C5, amended. When the reply to the token request lacks the field
  \<^verbatim>\<open>access_token\<close>, \<open>init\<close> raises and the token request is the only request issued:
  no listing is fetched, and the check of \<^verbatim>\<open>/api/v1/me\<close> is not made either. The
  exception is \<^verbatim>\<open>Exception('Invalid credentials')\<close> when the reply is a JSON object,
  the only case \<^verbatim>\<open>except KeyError\<close> catches; it is TypeError for JSON of another shape
  and JSONDecodeError for a body that is not JSON.
\<close>

theorem token_missing:
  assumes "files s path = Inr cfg"
    and "getitem cfg ''client_id'' = Inr cid" and "getitem cfg ''secret_token'' = Inr sec"
    and "getitem cfg ''username'' = Inr usr" and "getitem cfg ''password'' = Inr pwd"
    and "upstream s (sent s @ [token_request cid sec usr pwd]) = Resp code body"
    and "\<not> has_token body"
  shows "\<exists>e s'. init path s = (Inl e, s') \<and>
           sent s' = sent s @ [token_request cid sec usr pwd] \<and>
           e = (case body of
                  None \<Rightarrow> JSONDecodeError
                | Some j \<Rightarrow> (case j of JObj kvs \<Rightarrow> Exception ''Invalid credentials''
                                       | _ \<Rightarrow> TypeError))"
proof -
  let ?t = "s\<lparr>config := cfg, headers := [(''User-Agent'', ''MyBot/0.0.1'')]\<rparr>"
  let ?e = "case body of
                  None \<Rightarrow> JSONDecodeError
                | Some j \<Rightarrow> (case j of JObj kvs \<Rightarrow> Exception ''Invalid credentials''
                                       | _ \<Rightarrow> TypeError)"
  have "\<exists>s1. get_token ?t = (Inl ?e, s1) \<and> sent s1 = sent s @ [token_request cid sec usr pwd]"
  proof (cases body)
    case None
    with assms(2-6) show ?thesis
      by (simp add: get_token_def and_then_def http_def Let_def token_request_def)
  next
    case (Some j)
    show ?thesis
    proof (cases j)
      case (JObj kvs)
      with Some assms(7) have "map_of kvs ''access_token'' = None"
        by (simp add: has_token_def split: option.splits)
      with Some JObj assms(2-6) show ?thesis
        by (simp add: get_token_def and_then_def http_def Let_def token_request_def print_def)
    qed (use Some assms(2-6) in
          \<open>simp_all add: get_token_def and_then_def http_def Let_def token_request_def\<close>)
  qed
  then obtain s1 where "get_token ?t = (Inl ?e, s1)"
    "sent s1 = sent s @ [token_request cid sec usr pwd]" by blast
  with assms(1) show ?thesis by (simp add: init_def)
qed

theorem token_missing_witness:
  "files (fresh [Resp 401 (Some (JObj [(''error'', JStr ''invalid_grant'')]))]) ''reddit_cred.json'' =
     Inr (config (loader [])) \<and>
   \<not> has_token (Some (JObj [(''error'', JStr ''invalid_grant'')])) \<and>
   (\<exists>s'. init ''reddit_cred.json'' (fresh [Resp 401 (Some (JObj [(''error'', JStr ''invalid_grant'')]))]) =
           (Inl (Exception ''Invalid credentials''), s') \<and>
         sent s' = [token_request (JStr ''id'') (JStr ''secret'') (JStr ''user'') (JStr ''pw'')])"
proof -
  let ?s = "fresh [Resp 401 (Some (JObj [(''error'', JStr ''invalid_grant'')]))]"
  have f: "files ?s ''reddit_cred.json'' = Inr (config (loader []))"
    by (simp add: fresh_def loader_def)
  have n: "\<not> has_token (Some (JObj [(''error'', JStr ''invalid_grant'')]))"
    by (simp add: has_token_def)
  have u: "upstream ?s (sent ?s @ [token_request (JStr ''id'') (JStr ''secret'') (JStr ''user'') (JStr ''pw'')]) =
      Resp 401 (Some (JObj [(''error'', JStr ''invalid_grant'')]))"
    by (simp add: fresh_def scripted_def)
  have "\<exists>e s'. init ''reddit_cred.json'' ?s = (Inl e, s') \<and>
         sent s' = sent ?s @ [token_request (JStr ''id'') (JStr ''secret'') (JStr ''user'') (JStr ''pw'')] \<and>
         e = (case Some (JObj [(''error'', JStr ''invalid_grant'')]) of
                  None \<Rightarrow> JSONDecodeError
                | Some j \<Rightarrow> (case j of JObj kvs \<Rightarrow> Exception ''Invalid credentials''
                                       | _ \<Rightarrow> TypeError))"
    by (rule token_missing[OF f _ _ _ _ u n]) (simp_all add: loader_def)
  then have "\<exists>s'. init ''reddit_cred.json'' ?s = (Inl (Exception ''Invalid credentials''), s') \<and>
         sent s' = [token_request (JStr ''id'') (JStr ''secret'') (JStr ''user'') (JStr ''pw'')]"
    by (simp add: fresh_def)
  with f n show ?thesis by blast
qed

text \<open>
  Claim C5 as stated fails: a token reply that is a JSON array lacks the field, and
  \<open>init\<close> raises TypeError, not the authentication error.
\<close>

theorem token_shape_counterexample:
  "\<not> has_token (Some (JArr [])) \<and>
   init ''reddit_cred.json'' (fresh [Resp 200 (Some (JArr []))]) =
     (Inl TypeError,
      (fresh [Resp 200 (Some (JArr []))])
        \<lparr>config := config (loader []), headers := [(''User-Agent'', ''MyBot/0.0.1'')],
         sent := [token_request (JStr ''id'') (JStr ''secret'') (JStr ''user'') (JStr ''pw'')]\<rparr>)"
  by (simp add: has_token_def init_def fresh_def loader_def get_token_def and_then_def http_def
      Let_def token_request_def scripted_def)

section \<open>Comment mode\<close>

text \<open>
  Claim C4. When the batch function of comment mode returns, the listing reply held a
  page of posts, each with name, title and id; after the listing request the function
  issued one comment request per post, in order, and nothing else; and the rows are, post
  after post, one row (post name, post title, body) for each comment item of the
  reply to that post's request that carries a body, in the order of the reply, the
  other items being left out.
\<close>

theorem comment_fan_out:
  assumes "get_single_batch_post_comment_from_reddit subreddit sort_by limit cursor s = (Inr rs, s')"
  shows "\<exists>code page posts.
     upstream s (sent s @ [top_request (headers s) subreddit limit cursor]) = Resp code (Some page) \<and>
     children page = Inr posts \<and>
     sent s' = sent s @ top_request (headers s) subreddit limit cursor #
                        map (comment_request (headers s) sort_by) posts \<and>
     length (sent s') = length (sent s) + 1 + length posts \<and>
     rs = concat (map (\<lambda>i. rows_of_post (posts ! i)
            (thread (upstream s (sent s @ top_request (headers s) subreddit limit cursor #
                                 map (comment_request (headers s) sort_by) (take (Suc i) posts)))))
          [0..<length posts]) \<and>
     (\<forall>post \<in> set posts. \<forall>k \<in> {''name'', ''title'', ''id''}. \<exists>v. field post k = Inr v)"
proof -
  let ?ps = "[(''limit'', JNum limit), (''raw_json'', JNum 1), (''t'', JStr ''all'')] @ before_param cursor"
  let ?top = "top_request (headers s) subreddit limit cursor"
  have top: "?top = \<lparr>meth = GET, target = ListingUri subreddit ''top'', hdrs = headers s,
      params = ?ps, auth = None, form = []\<rparr>"
    by (simp add: top_request_def)
  obtain r s1 where g: "get_json (ListingUri subreddit ''top'') ?ps s = (r, s1)"
    by (cases "get_json (ListingUri subreddit ''top'') ?ps s")
  from get_json_frame[of "ListingUri subreddit ''top''" ?ps s] g top
  have s1: "s1 = s\<lparr>sent := sent s @ [?top]\<rparr>" by simp
  from assms g obtain page where page: "r = Inr page"
    by (cases r) (auto simp: get_single_batch_post_comment_from_reddit_def)
  from get_json_ok[of "ListingUri subreddit ''top''" ?ps s page s1] g page top
  obtain code where up: "upstream s (sent s @ [?top]) = Resp code (Some page)" by auto
  from assms g page obtain posts where posts: "children page = Inr posts"
    and pc: "post_comments sort_by posts [] s1 = (Inr rs, s')"
    by (cases "children page") (auto simp: get_single_batch_post_comment_from_reddit_def)
  from post_comments_ok[OF pc] s1 have
    1: "sent s' = sent s @ ?top # map (comment_request (headers s) sort_by) posts"
    and 2: "rs = concat (map (\<lambda>i. rows_of_post (posts ! i)
            (thread (upstream s (sent s @ ?top #
                                 map (comment_request (headers s) sort_by) (take (Suc i) posts)))))
          [0..<length posts])"
    and 3: "\<forall>post \<in> set posts. \<forall>k \<in> {''name'', ''title'', ''id''}. \<exists>v. field post k = Inr v"
    by simp_all
  from 1 have 4: "length (sent s') = length (sent s) + 1 + length posts" by simp
  from up posts 1 4 2 3 show ?thesis by blast
qed

lemmas ev2 = ev get_single_batch_post_comment_from_reddit_def comment_params_def
  comment_item_def more_item_def comments_page_def example_replies_def
  example_a_def example_b_def

theorem comment_fan_out_witness:
  "get_single_batch_post_comment_from_reddit ''sad'' ''new'' 100 JNull (loader example_replies) =
     (Inr [(JStr ''t3_a'', JStr ''A'', JStr ''so sad''), (JStr ''t3_a'', JStr ''A'', JStr ''same'')],
      (loader example_replies)\<lparr>sent :=
         [top_request (headers (loader [])) ''sad'' 100 JNull,
          comment_request (headers (loader [])) ''new'' example_a,
          comment_request (headers (loader [])) ''new'' example_b]\<rparr>) \<and>
   children (listing [example_a, example_b]) = Inr [example_a, example_b] \<and>
   length [top_request (headers (loader [])) ''sad'' 100 JNull,
          comment_request (headers (loader [])) ''new'' example_a,
          comment_request (headers (loader [])) ''new'' example_b] = 1 + length [example_a, example_b]"
proof -
  let ?s = "loader example_replies"
  let ?t = "?s\<lparr>sent :=
         [top_request (headers (loader [])) ''sad'' 100 JNull,
          comment_request (headers (loader [])) ''new'' example_a,
          comment_request (headers (loader [])) ''new'' example_b]\<rparr>"
  have h: "get_single_batch_post_comment_from_reddit ''sad'' ''new'' 100 JNull ?s =
     (Inr [(JStr ''t3_a'', JStr ''A'', JStr ''so sad''), (JStr ''t3_a'', JStr ''A'', JStr ''same'')], ?t)"
    by (simp add: ev2 top_request_def comment_request_def the_field_def)
  from comment_fan_out[OF h] obtain code pg posts where
    u: "upstream ?s (sent ?s @ [top_request (headers ?s) ''sad'' 100 JNull]) = Resp code (Some pg)"
    and c: "children pg = Inr posts"
    and n: "length (sent ?t) = length (sent ?s) + 1 + length posts"
    by blast
  from u have "pg = listing [example_a, example_b]"
    by (simp add: loader_def scripted_def example_replies_def page_def)
  with c have c': "children (listing [example_a, example_b]) = Inr posts" by simp
  then have "posts = [example_a, example_b]"
    by (simp add: listing_def children_def field_def and_then_def)
  with c' n h show ?thesis by (simp add: loader_def)
qed

end
